theory Spec2Isabelle
  imports Complex_Main "HOL-Library.Sublist"
begin

section \<open>Event decoder: the read loop of analyzeStream (lib/api.ts)\<close>

text \<open>
  The response body arrives as a sequence of byte chunks. The loop keeps a text buffer,
  appends the decoded text of every chunk, splits the buffer at line feeds, keeps the last
  piece as the new buffer and hands every other piece that starts with the marker
  \<open>data: \<close> to \<open>JSON.parse\<close>, yielding what parses.

  Two collaborators are parameters of the model:
  \<^item> \<open>JSON.parse\<close> is a function \<open>parse\<close> that returns \<open>None\<close> where the original throws;
  \<^item> the \<open>TextDecoder\<close> used with \<open>stream: true\<close> is a byte handler \<open>dec\<close> that maps the
    decoder's state and one byte to the next state and the text emitted for that byte
    (empty while a multi-byte sequence is incomplete). The state lives across calls.
\<close>

type_synonym 'e json_parse = "string \<Rightarrow> 'e option"

type_synonym ('d, 'b) text_decoder = "'d \<Rightarrow> 'b \<Rightarrow> 'd \<times> string"

definition newline :: char where
  "newline = CHR 0x0A"

text \<open>\<open>decoder.decode(value, { stream: true })\<close>: the bytes of the chunk pass through
  the handler one by one, from the state the previous call left.\<close>

fun decode :: "('d, 'b) text_decoder \<Rightarrow> 'd \<Rightarrow> 'b list \<Rightarrow> 'd \<times> string" where
  "decode dec d [] = (d, [])"
| "decode dec d (b # bs) =
     (case dec d b of (d1, t1) \<Rightarrow>
        (case decode dec d1 bs of (d2, t2) \<Rightarrow> (d2, t1 @ t2)))"

text \<open>\<open>buffer.split("\n")\<close>: the pieces between line feeds; never an empty array.\<close>

fun split_nl :: "string \<Rightarrow> string list" where
  "split_nl [] = [[]]"
| "split_nl (c # cs) =
     (let ls = split_nl cs
      in if c = newline then [] # ls else (c # hd ls) # tl ls)"

text \<open>The body of the \<open>for (const line of lines)\<close> loop for one line: a line without
  the marker is skipped, a line whose payload does not parse is skipped (the empty
  \<open>catch\<close>), any other line yields its event.\<close>

definition line_event :: "'e json_parse \<Rightarrow> string \<Rightarrow> 'e option" where
  "line_event parse line =
     (if prefix ''data: '' line then parse (drop 6 line) else None)"

definition yield_lines :: "'e json_parse \<Rightarrow> string list \<Rightarrow> 'e list" where
  "yield_lines parse ls = List.map_filter (line_event parse) ls"

text \<open>The state of the loop between two reads: the decoder's state and \<open>buffer\<close>.\<close>

record 'd reader_state =
  decoder :: 'd
  buffer :: string

text \<open>One iteration of \<open>while (true)\<close> for a chunk \<open>value\<close> that was read
  (\<open>done\<close> false): the new loop state and the events yielded in this iteration.
  \<open>lines.pop() || ""\<close> is the last piece.\<close>

definition read_chunk ::
  "'e json_parse \<Rightarrow> ('d, 'b) text_decoder \<Rightarrow> 'd reader_state \<Rightarrow> 'b list \<Rightarrow>
   'd reader_state \<times> 'e list" where
  "read_chunk parse dec s v =
     (case decode dec (decoder s) v of (d1, t) \<Rightarrow>
        (let ls = split_nl (buffer s @ t)
         in (\<lparr>decoder = d1, buffer = last ls\<rparr>, yield_lines parse (butlast ls))))"

text \<open>The whole loop over the chunks the reader delivers before it reports \<open>done\<close>
  (or throws): the events yielded, in order, and the loop state at the end.\<close>

fun read_loop ::
  "'e json_parse \<Rightarrow> ('d, 'b) text_decoder \<Rightarrow> 'd reader_state \<Rightarrow> 'b list list \<Rightarrow>
   'e list \<times> 'd reader_state" where
  "read_loop parse dec s [] = ([], s)"
| "read_loop parse dec s (v # vs) =
     (case read_chunk parse dec s v of (s1, es1) \<Rightarrow>
        (case read_loop parse dec s1 vs of (es2, s2) \<Rightarrow> (es1 @ es2, s2)))"

text \<open>\<open>new TextDecoder()\<close> in state \<open>d0\<close> and \<open>let buffer = ""\<close>.\<close>

definition decoder_events ::
  "'e json_parse \<Rightarrow> ('d, 'b) text_decoder \<Rightarrow> 'd \<Rightarrow> 'b list list \<Rightarrow> 'e list" where
  "decoder_events parse dec d0 vs =
     fst (read_loop parse dec \<lparr>decoder = d0, buffer = []\<rparr> vs)"

text \<open>What a \<open>throw\<close> carries, as far as the caller's
  \<open>err instanceof Error ? err.message : "Analysis failed"\<close> can tell.\<close>

datatype thrown = Error string | NotAnError

text \<open>What the network does to one request: \<open>fetch\<close> rejects; the response is not
  \<open>ok\<close> (with the \<open>detail\<close> of its JSON body when it has one); the response has no
  body; or the body delivers chunks and then either reports \<open>done\<close> (\<open>None\<close>) or a
  \<open>read\<close> rejects.\<close>

datatype 'b response =
    FetchRejected thrown
  | NotOk "string option"
  | NoBody
  | Body "'b list list" "thrown option"

text \<open>analyzeStream as its consumer sees it: the events yielded, then the exception that
  ends the iteration, if any. Events yielded before a rejected \<open>read\<close> reach the
  consumer before the exception does.\<close>

fun analyzeStream ::
  "'e json_parse \<Rightarrow> ('d, 'b) text_decoder \<Rightarrow> 'd \<Rightarrow> 'b response \<Rightarrow>
   'e list \<times> thrown option" where
  "analyzeStream parse dec d0 (FetchRejected err) = ([], Some err)"
| "analyzeStream parse dec d0 (NotOk detail) =
     ([], Some (Error (case detail of
                         None \<Rightarrow> ''Analysis failed''
                       | Some m \<Rightarrow> if m = [] then ''Analysis failed'' else m)))"
| "analyzeStream parse dec d0 NoBody = ([], Some (Error ''No response body''))"
| "analyzeStream parse dec d0 (Body vs ending) = (decoder_events parse dec d0 vs, ending)"

text \<open>For stating properties: the text the decoder emits for the whole body, and the
  framing of a list of records, each followed by a line feed.\<close>

definition decoded_text :: "('d, 'b) text_decoder \<Rightarrow> 'd \<Rightarrow> 'b list list \<Rightarrow> string" where
  "decoded_text dec d0 vs = snd (decode dec d0 (concat vs))"

definition frame :: "string list \<Rightarrow> string" where
  "frame ls = concat (map (\<lambda>l. l @ [newline]) ls)"

section \<open>Data model (the shared type declarations)\<close>

text \<open>The counts that events and progress snapshots carry are integers here. The numeric
  fields that go through the history store are numbers as JSON treats them: a finite
  number is written and read back unchanged, a non-finite one (\<open>NaN\<close>, \<open>Infinity\<close>) is
  written as \<open>null\<close>, and \<open>null\<close> stays \<open>null\<close>.\<close>

datatype 'a js_number = Finite 'a | NonFinite | Null

fun json_number :: "'a js_number \<Rightarrow> 'a js_number" where
  "json_number (Finite x) = Finite x"
| "json_number NonFinite = Null"
| "json_number Null = Null"

datatype ComplianceStatus = MET | NOT_MET | PARTIAL

record ComplianceAnswer =
  question :: string
  status :: ComplianceStatus
  evidence :: "string option"
  source :: "string option"
  page :: "int js_number"
  confidence :: "real js_number"
  reasoning :: string

record AnalysisProgress =
  answered :: int
  total' :: int
  met :: int
  not_met :: int
  partial :: int

text \<open>\<open>Omit<AnalysisHistoryItem, "id" | "timestamp">\<close> is the base record and
  \<open>AnalysisHistoryItem\<close> extends it, so that \<open>{ ...item, id, timestamp }\<close> is the
  extension of the payload and dropping the two fields is the truncation. A
  \<open>Record<number, ComplianceAnswer>\<close> is a map from indices to answers.\<close>

record HistoryPayload =
  filename :: string
  totalQuestions :: "int js_number"
  met :: "int js_number"
  notMet :: "int js_number"
  partial :: "int js_number"
  questions :: "string list"
  answers :: "int \<rightharpoonup> ComplianceAnswer"

record AnalysisHistoryItem = HistoryPayload +
  id' :: string
  timestamp :: string

text \<open>What \<open>JSON.parse (JSON.stringify x)\<close> gives for an answer and for a payload or an
  entry: the numeric fields go through \<open>json_number\<close>, strings and the shape stay.\<close>

definition json_answer :: "ComplianceAnswer \<Rightarrow> ComplianceAnswer" where
  "json_answer a = a\<lparr>page := json_number (page a), confidence := json_number (confidence a)\<rparr>"

definition json_roundtrip :: "'a HistoryPayload_scheme \<Rightarrow> 'a HistoryPayload_scheme" where
  "json_roundtrip h =
     h\<lparr>totalQuestions := json_number (totalQuestions h),
       met := json_number (met h),
       notMet := json_number (notMet h),
       partial := json_number (partial h),
       answers := (\<lambda>i. map_option json_answer (answers h i))\<rparr>"

section \<open>History store (lib/history.ts)\<close>

text \<open>
  The store is one \<open>localStorage\<close> entry under \<open>HISTORY_KEY\<close>. The model keeps what
  \<open>getHistory\<close> can tell about its text: there is no entry (or an empty string); the text
  does not parse; the text parses to a value that is not an array and cannot be spread
  (\<open>null\<close>, a number, a boolean, an object); or the text parses to an array of entries,
  as every text this module writes does. The code runs in the browser, where \<open>window\<close>
  is defined.

  \<open>localStorage.setItem\<close> may throw when the quota is exceeded; the environment decides:
  \<open>quota xs\<close> is \<open>None\<close> when writing the collection \<open>xs\<close> is accepted and the exception
  thrown otherwise. A rejected write leaves the entry as it was. An accepted write stores
  the text of \<open>JSON.stringify xs\<close>, which parses to the entries of \<open>xs\<close> after their JSON
  round trip.
\<close>

datatype stored = NoItem | Unparseable | NotArray | Parsed "AnalysisHistoryItem list"

text \<open>What getHistory returns: an array of entries, or the parsed value that is none.\<close>

datatype history_value = Array "AnalysisHistoryItem list" | NotIterable

type_synonym quota = "AnalysisHistoryItem list \<Rightarrow> thrown option"

definition MAX_HISTORY_ITEMS :: nat where
  "MAX_HISTORY_ITEMS = 50"

text \<open>getHistory: \<open>[]\<close> without an entry and in the \<open>catch\<close>, otherwise whatever
  \<open>JSON.parse(stored)\<close> is, unchecked.\<close>

fun getHistory :: "stored \<Rightarrow> history_value" where
  "getHistory NoItem = Array []"
| "getHistory Unparseable = Array []"
| "getHistory NotArray = NotIterable"
| "getHistory (Parsed xs) = Array xs"

text \<open>\<open>localStorage.setItem(HISTORY_KEY, JSON.stringify(xs))\<close>: the exception, if any,
  and the store afterwards.\<close>

definition setItem :: "quota \<Rightarrow> stored \<Rightarrow> AnalysisHistoryItem list \<Rightarrow> thrown option \<times> stored" where
  "setItem q st xs =
     (case q xs of None \<Rightarrow> (None, Parsed (map json_roundtrip xs)) | Some x \<Rightarrow> (Some x, st))"

text \<open>\<open>{ ...item, id: crypto.randomUUID(), timestamp: new Date().toISOString() }\<close>,
  with the two generated values given.\<close>

definition newItem :: "HistoryPayload \<Rightarrow> string \<Rightarrow> string \<Rightarrow> AnalysisHistoryItem" where
  "newItem item uuid now = HistoryPayload.extend item (AnalysisHistoryItem.fields uuid now)"

text \<open>\<open>[newItem, ...history]\<close>: spreading a value that is not iterable throws a
  \<open>TypeError\<close>.\<close>

fun spread_after :: "AnalysisHistoryItem \<Rightarrow> history_value \<Rightarrow> thrown + AnalysisHistoryItem list" where
  "spread_after new (Array history) = Inr ([new] @ history)"
| "spread_after new NotIterable = Inl (Error ''history is not iterable'')"

text \<open>saveToHistory, given the values that \<open>crypto.randomUUID()\<close> and
  \<open>new Date().toISOString()\<close> produce in this call: what the call returns or throws,
  and the store afterwards. The second \<open>setItem\<close> stands in the \<open>catch\<close> block,
  outside any \<open>try\<close>; the spread stands before the \<open>try\<close>.\<close>

definition saveToHistory ::
  "quota \<Rightarrow> string \<Rightarrow> string \<Rightarrow> stored \<Rightarrow> HistoryPayload \<Rightarrow>
   (thrown + AnalysisHistoryItem) \<times> stored" where
  "saveToHistory q uuid now st item =
     (let history = getHistory st;
          new = newItem item uuid now
      in case spread_after new history of
           Inl x \<Rightarrow> (Inl x, st)
         | Inr all \<Rightarrow>
             (let updated = take MAX_HISTORY_ITEMS all
              in case setItem q st updated of
                   (None, st1) \<Rightarrow> (Inr new, st1)
                 | (Some _, st1) \<Rightarrow>
                     (let trimmed = take 10 updated
                      in case setItem q st1 trimmed of
                           (None, st2) \<Rightarrow> (Inr new, st2)
                         | (Some x, st2) \<Rightarrow> (Inl x, st2))))"



text \<open>Concrete inputs used in examples: a payload without questions, the same payload with
  a non-finite total and with a \<open>null\<close> total, a stored item, a store that rejects every
  write, one that rejects collections of more than ten entries, and one that accepts
  every write.\<close>

definition no_answers :: "int \<rightharpoonup> ComplianceAnswer" where
  "no_answers = Map.empty"

definition example_payload :: HistoryPayload where
  "example_payload =
     \<lparr>filename = ''audit.pdf'', totalQuestions = Finite 0, met = Finite 0, notMet = Finite 0,
      partial = Finite 0, questions = [], answers = no_answers\<rparr>"



definition old_item :: AnalysisHistoryItem where
  "old_item = newItem example_payload ''id-old'' ''2025-01-01T00:00:00.000Z''"

definition full_storage :: quota where
  "full_storage xs = Some (Error ''QuotaExceededError'')"

definition room_for_ten :: quota where
  "room_for_ten xs = (if 10 < length xs then Some (Error ''QuotaExceededError'') else None)"

definition accept_all :: quota where
  "accept_all xs = None"

definition replicate_char :: "char \<Rightarrow> nat \<Rightarrow> string" where
  "replicate_char c n = replicate n c"


section \<open>Job controller: handleFileSelect (app/page.tsx)\<close>

text \<open>The events of the stream, discriminated by \<open>type\<close>: \<open>status{message}\<close>,
  \<open>questions{questions, total}\<close>, \<open>answer{index, answer, progress}\<close>,
  \<open>complete{total, met, not_met, partial}\<close> and \<open>error{message}\<close>.\<close>

datatype SSEEvent =
    Ev_status string
  | Ev_questions "string list" int
  | Ev_answer int ComplianceAnswer AnalysisProgress
  | Ev_complete int int int int
  | Ev_error string

fun is_complete :: "SSEEvent \<Rightarrow> bool" where
  "is_complete (Ev_complete t m n p) = True"
| "is_complete _ = False"

datatype AnalysisState = St_idle | St_analyzing | St_complete | St_error

datatype Tab = Tab_analyze | Tab_history

text \<open>What saveToHistory takes from its environment: the quota of the store, and the
  identifier and time stamp generated in the \<open>k\<close>-th call of a run.\<close>

record env =
  quota :: quota
  randomUUID :: "nat \<Rightarrow> string"
  isoNow :: "nat \<Rightarrow> string"

text \<open>Everything handleFileSelect reads or writes: the component's state variables
  (\<open>indexStats\<close>, which it never touches, is left out), the three variables of the
  \<open>try\<close> block, the store, and the number of saveToHistory calls made so far. State
  setters take effect in program order.\<close>

record run_state =
  activeTab :: Tab
  analysisState :: AnalysisState
  status :: string
  questions :: "string list"
  answers :: "int \<rightharpoonup> ComplianceAnswer"
  progress :: "AnalysisProgress option"
  error :: "string option"
  currentFilename :: string
  historyCount :: nat
  finalQuestions :: "string list"
  finalAnswers :: "int \<rightharpoonup> ComplianceAnswer"
  finalProgress :: "AnalysisProgress option"
  storage :: stored
  saves :: nat

text \<open>\<open>getHistory().length\<close> for \<open>setHistoryCount\<close>. It is read right after a
  saveToHistory that returned, when the store holds an array; for a value that is no
  array the count is left as it is.\<close>

fun history_length :: "history_value \<Rightarrow> 'a run_state_scheme \<Rightarrow> nat" where
  "history_length (Array xs) s = length xs"
| "history_length NotIterable s = historyCount s"

text \<open>The body of the \<open>switch\<close> for one event: the exception thrown out of it, if any,
  and the state it leaves. Only saveToHistory can throw; the setters before it have run
  by then.\<close>

fun handle_event :: "env \<Rightarrow> string \<Rightarrow> run_state \<Rightarrow> SSEEvent \<Rightarrow> thrown option \<times> run_state" where
  "handle_event ev file s (Ev_status message) =
     (None, s\<lparr>status := message\<rparr>)"
| "handle_event ev file s (Ev_questions qs t) =
     (None, s\<lparr>finalQuestions := qs,
              questions := qs,
              progress := Some \<lparr>answered = 0, total' = t, AnalysisProgress.met = 0,
                                not_met = 0, AnalysisProgress.partial = 0\<rparr>\<rparr>)"
| "handle_event ev file s (Ev_answer i a p) =
     (None, s\<lparr>finalAnswers := (finalAnswers s)(i \<mapsto> a),
              answers := (answers s)(i \<mapsto> a),
              progress := Some p,
              finalProgress := Some p\<rparr>)"
| "handle_event ev file s (Ev_complete t m n p) =
     (let fp = \<lparr>answered = t, total' = t, AnalysisProgress.met = m,
                not_met = n, AnalysisProgress.partial = p\<rparr>;
          s1 = s\<lparr>analysisState := St_complete, finalProgress := Some fp, progress := Some fp\<rparr>;
          saved = saveToHistory (quota ev) (randomUUID ev (saves s1)) (isoNow ev (saves s1))
                    (storage s1)
                    \<lparr>filename = file, totalQuestions = Finite t, HistoryPayload.met = Finite m,
                     notMet = Finite n, HistoryPayload.partial = Finite p,
                     HistoryPayload.questions = finalQuestions s1,
                     HistoryPayload.answers = finalAnswers s1\<rparr>;
          s2 = s1\<lparr>storage := snd saved, saves := saves s1 + 1\<rparr>
      in case fst saved of
           Inl x \<Rightarrow> (Some x, s2)
         | Inr _ \<Rightarrow> (None, s2\<lparr>historyCount := history_length (getHistory (storage s2)) s2\<rparr>))"
| "handle_event ev file s (Ev_error message) =
     (None, s\<lparr>analysisState := St_error, error := Some message\<rparr>)"

text \<open>\<open>for await (const event of analyzeStream(file))\<close> over the events yielded: an
  exception thrown by the body ends the loop.\<close>

fun event_loop :: "env \<Rightarrow> string \<Rightarrow> run_state \<Rightarrow> SSEEvent list \<Rightarrow> thrown option \<times> run_state" where
  "event_loop ev file s [] = (None, s)"
| "event_loop ev file s (e # es) =
     (case handle_event ev file s e of
        (Some x, s1) \<Rightarrow> (Some x, s1)
      | (None, s1) \<Rightarrow> event_loop ev file s1 es)"

text \<open>The \<open>catch\<close> block.\<close>

definition catch_block :: "thrown \<Rightarrow> 'a run_state_scheme \<Rightarrow> 'a run_state_scheme" where
  "catch_block err s =
     s\<lparr>analysisState := St_error,
       error := Some (case err of Error m \<Rightarrow> m | NotAnError \<Rightarrow> ''Analysis failed'')\<rparr>"

text \<open>The \<open>try\<close> statement, given what analyzeStream delivers: the events and then, if
  the iteration ends with an exception, that exception.\<close>

definition try_block ::
  "env \<Rightarrow> string \<Rightarrow> SSEEvent list \<times> thrown option \<Rightarrow> run_state \<Rightarrow> run_state" where
  "try_block ev file stream s =
     (case event_loop ev file s (fst stream) of
        (Some x, s1) \<Rightarrow> catch_block x s1
      | (None, s1) \<Rightarrow> (case snd stream of None \<Rightarrow> s1 | Some x \<Rightarrow> catch_block x s1))"

text \<open>The resets before the \<open>try\<close> and the fresh variables at its start.\<close>

definition reset_for :: "string \<Rightarrow> run_state \<Rightarrow> run_state" where
  "reset_for file s =
     s\<lparr>analysisState := St_analyzing,
       status := ''Starting analysis...'',
       questions := [],
       answers := Map.empty,
       progress := None,
       error := None,
       currentFilename := file,
       activeTab := Tab_analyze,
       finalQuestions := [],
       finalAnswers := Map.empty,
       finalProgress := None\<rparr>"

definition handleFileSelect ::
  "env \<Rightarrow> SSEEvent json_parse \<Rightarrow> ('d, 'b) text_decoder \<Rightarrow> 'd \<Rightarrow> string \<Rightarrow> 'b response \<Rightarrow>
   run_state \<Rightarrow> run_state" where
  "handleFileSelect ev parse dec d0 file resp s =
     try_block ev file (analyzeStream parse dec d0 resp) (reset_for file s)"

text \<open>Concrete inputs used in examples: an environment whose store accepts every write, a
  parser that knows two payloads, a decoder that passes single-byte characters through,
  the state of the page before any job, an answer and a progress snapshot.\<close>

definition example_env :: env where
  "example_env =
     \<lparr>quota = accept_all, randomUUID = replicate_char (CHR ''i''), isoNow = replicate_char (CHR ''t'')\<rparr>"

definition example_parse :: "SSEEvent json_parse" where
  "example_parse s =
     (if s = ''complete'' then Some (Ev_complete 0 0 0 0)
      else if s = ''error'' then Some (Ev_error ''LLM quota exceeded'')
      else None)"

definition ascii :: "(unit, char) text_decoder" where
  "ascii d b = (d, [b])"

definition idle_page :: run_state where
  "idle_page =
     \<lparr>activeTab = Tab_analyze, analysisState = St_idle, status = [], questions = [],
      answers = no_answers, progress = None, error = None, currentFilename = [],
      historyCount = 0, finalQuestions = [], finalAnswers = no_answers,
      finalProgress = None, storage = NoItem, saves = 0\<rparr>"

definition example_answer :: ComplianceAnswer where
  "example_answer =
     \<lparr>question = ''Is MFA enforced?'', ComplianceAnswer.status = MET, evidence = None,
      source = None, page = Null, confidence = Finite 1, reasoning = ''Stated in the policy.''\<rparr>"

definition example_progress :: AnalysisProgress where
  "example_progress =
     \<lparr>answered = 1, total' = 1, AnalysisProgress.met = 1, not_met = 0,
      AnalysisProgress.partial = 0\<rparr>"

section \<open>Job controller with phases: the handleFileSelect that tracks \<open>phase\<close>\<close>

text \<open>This version of the page keeps two more state variables, \<open>phase\<close> and
  \<open>processingIndices\<close>, and infers the phase from the text of status messages.\<close>

datatype AnalysisPhase =
  Ph_uploading | Ph_extracting | Ph_keywords | Ph_searching | Ph_analyzing | Ph_complete

text \<open>The order of the phases: the position in the type's declaration.\<close>

fun phase_rank :: "AnalysisPhase \<Rightarrow> nat" where
  "phase_rank Ph_uploading = 0"
| "phase_rank Ph_extracting = 1"
| "phase_rank Ph_keywords = 2"
| "phase_rank Ph_searching = 3"
| "phase_rank Ph_analyzing = 4"
| "phase_rank Ph_complete = 5"

record phased_state = run_state +
  phase :: AnalysisPhase
  processingIndices :: "int set"

text \<open>\<open>message.includes(sub)\<close>: \<open>sub\<close> occurs in \<open>message\<close> as a contiguous piece.\<close>

fun includes' :: "string \<Rightarrow> string \<Rightarrow> bool" where
  "includes' [] sub = (sub = [])"
| "includes' (c # cs) sub = (prefix sub (c # cs) \<or> includes' cs sub)"

fun handle_event_ph ::
  "env \<Rightarrow> string \<Rightarrow> phased_state \<Rightarrow> SSEEvent \<Rightarrow> thrown option \<times> phased_state" where
  "handle_event_ph ev file s (Ev_status message) =
     (let s1 = s\<lparr>status := message\<rparr>
      in (None,
          if includes' message ''Extracting questions'' then s1\<lparr>phase := Ph_extracting\<rparr>
          else if includes' message ''Extracting keywords'' \<or> includes' message ''keywords''
            then s1\<lparr>phase := Ph_keywords\<rparr>
          else if includes' message ''Searching'' \<or> includes' message ''search''
            then s1\<lparr>phase := Ph_searching\<rparr>
          else if includes' message ''Analyzing compliance'' \<or> includes' message ''compliance''
            then s1\<lparr>phase := Ph_analyzing\<rparr>
          else s1))"
| "handle_event_ph ev file s (Ev_questions qs t) =
     (None, s\<lparr>finalQuestions := qs,
              questions := qs,
              phase := Ph_keywords,
              progress := Some \<lparr>answered = 0, total' = t, AnalysisProgress.met = 0,
                                not_met = 0, AnalysisProgress.partial = 0\<rparr>,
              processingIndices := {}\<rparr>)"
| "handle_event_ph ev file s (Ev_answer i a p) =
     (None, s\<lparr>finalAnswers := (finalAnswers s)(i \<mapsto> a),
              answers := (answers s)(i \<mapsto> a),
              progress := Some p,
              finalProgress := Some p,
              processingIndices := processingIndices s - {i}\<rparr>)"
| "handle_event_ph ev file s (Ev_complete t m n p) =
     (let fp = \<lparr>answered = t, total' = t, AnalysisProgress.met = m,
                not_met = n, AnalysisProgress.partial = p\<rparr>;
          s1 = s\<lparr>analysisState := St_complete, phase := Ph_complete,
                 finalProgress := Some fp, progress := Some fp, processingIndices := {}\<rparr>;
          saved = saveToHistory (quota ev) (randomUUID ev (saves s1)) (isoNow ev (saves s1))
                    (storage s1)
                    \<lparr>filename = file, totalQuestions = Finite t, HistoryPayload.met = Finite m,
                     notMet = Finite n, HistoryPayload.partial = Finite p,
                     HistoryPayload.questions = finalQuestions s1,
                     HistoryPayload.answers = finalAnswers s1\<rparr>;
          s2 = s1\<lparr>storage := snd saved, saves := saves s1 + 1\<rparr>
      in case fst saved of
           Inl x \<Rightarrow> (Some x, s2)
         | Inr _ \<Rightarrow> (None, s2\<lparr>historyCount := history_length (getHistory (storage s2)) s2\<rparr>))"
| "handle_event_ph ev file s (Ev_error message) =
     (None, s\<lparr>analysisState := St_error, error := Some message\<rparr>)"

fun event_loop_ph ::
  "env \<Rightarrow> string \<Rightarrow> phased_state \<Rightarrow> SSEEvent list \<Rightarrow> thrown option \<times> phased_state" where
  "event_loop_ph ev file s [] = (None, s)"
| "event_loop_ph ev file s (e # es) =
     (case handle_event_ph ev file s e of
        (Some x, s1) \<Rightarrow> (Some x, s1)
      | (None, s1) \<Rightarrow> event_loop_ph ev file s1 es)"

definition reset_for_ph :: "string \<Rightarrow> phased_state \<Rightarrow> phased_state" where
  "reset_for_ph file s =
     s\<lparr>analysisState := St_analyzing,
       phase := Ph_uploading,
       status := ''Uploading file...'',
       questions := [],
       answers := Map.empty,
       progress := None,
       error := None,
       currentFilename := file,
       activeTab := Tab_analyze,
       processingIndices := {},
       finalQuestions := [],
       finalAnswers := Map.empty,
       finalProgress := None\<rparr>"

definition handleFileSelect_ph ::
  "env \<Rightarrow> SSEEvent json_parse \<Rightarrow> ('d, 'b) text_decoder \<Rightarrow> 'd \<Rightarrow> string \<Rightarrow> 'b response \<Rightarrow>
   phased_state \<Rightarrow> phased_state" where
  "handleFileSelect_ph ev parse dec d0 file resp s =
     (let stream = analyzeStream parse dec d0 resp
      in case event_loop_ph ev file (reset_for_ph file s) (fst stream) of
           (Some x, s1) \<Rightarrow> catch_block x s1
         | (None, s1) \<Rightarrow> (case snd stream of None \<Rightarrow> s1 | Some x \<Rightarrow> catch_block x s1))"

text \<open>For stating properties: the value of \<open>phase\<close> after each event the loop processes,
  and the phase an event signals by itself (the keyword rows of the status case in their
  order, \<open>keywords\<close> for a questions event, \<open>complete\<close> for a complete event).\<close>

fun phases_seen :: "env \<Rightarrow> string \<Rightarrow> phased_state \<Rightarrow> SSEEvent list \<Rightarrow> AnalysisPhase list" where
  "phases_seen ev file s [] = []"
| "phases_seen ev file s (e # es) =
     (case handle_event_ph ev file s e of
        (Some x, s1) \<Rightarrow> [phase s1]
      | (None, s1) \<Rightarrow> phase s1 # phases_seen ev file s1 es)"

fun signalled :: "SSEEvent \<Rightarrow> AnalysisPhase option" where
  "signalled (Ev_status message) =
     (if includes' message ''Extracting questions'' then Some Ph_extracting
      else if includes' message ''Extracting keywords'' \<or> includes' message ''keywords''
        then Some Ph_keywords
      else if includes' message ''Searching'' \<or> includes' message ''search''
        then Some Ph_searching
      else if includes' message ''Analyzing compliance'' \<or> includes' message ''compliance''
        then Some Ph_analyzing
      else None)"
| "signalled (Ev_questions qs t) = Some Ph_keywords"
| "signalled (Ev_answer i a p) = None"
| "signalled (Ev_complete t m n p) = Some Ph_complete"
| "signalled (Ev_error message) = None"

definition idle_page_ph :: phased_state where
  "idle_page_ph = run_state.extend idle_page (phased_state.fields Ph_uploading {})"

section \<open>Properties of the decoder\<close>

lemma decode_append:
  "decode dec d (xs @ ys) =
     (case decode dec d xs of (d1, t1) \<Rightarrow>
        (case decode dec d1 ys of (d2, t2) \<Rightarrow> (d2, t1 @ t2)))"
  by (induction xs arbitrary: d) (auto split: prod.splits)

lemma split_nl_not_Nil [simp]: "split_nl s \<noteq> []"
  by (induction s) (auto simp: Let_def)

lemma split_nl_hd_tl: "hd (split_nl s) # tl (split_nl s) = split_nl s"
  by simp

lemma last_split_nl_Cons:
  "last (split_nl (c # cs)) = (if c \<noteq> newline \<and> tl (split_nl cs) = [] then c # hd (split_nl cs) else last (split_nl cs))"
  by (cases "split_nl cs") (auto simp: Let_def)

lemma butlast_split_nl_Cons:
  "butlast (split_nl (c # cs)) =
     (if c = newline then [] # butlast (split_nl cs)
      else if tl (split_nl cs) = [] then []
      else (c # hd (split_nl cs)) # tl (butlast (split_nl cs)))"
  by (cases "split_nl cs") (auto simp: Let_def)

lemma split_nl_append:
  "split_nl (a @ b) =
     butlast (split_nl a) @ split_nl (last (split_nl a) @ b)"
proof (induction a)
  case Nil
  then show ?case by simp
next
  case (Cons c cs)
  show ?case
  proof (cases "split_nl cs")
    case Nil
    then show ?thesis by simp
  next
    case (Cons l ls)
    note shape = this
    show ?thesis
    proof (cases ls)
      case Nil
      with shape Cons.IH show ?thesis by (simp add: Let_def)
    next
      case (Cons l2 ls2)
      with shape Cons.IH show ?thesis by (simp add: Let_def)
    qed
  qed
qed

lemma butlast_split_nl_append:
  "butlast (split_nl (a @ b)) =
     butlast (split_nl a) @ butlast (split_nl (last (split_nl a) @ b))"
  by (subst split_nl_append) (simp add: butlast_append)

lemma last_split_nl_append:
  "last (split_nl (a @ b)) = last (split_nl (last (split_nl a) @ b))"
  by (subst split_nl_append) simp

lemma yield_lines_append:
  "yield_lines parse (xs @ ys) = yield_lines parse xs @ yield_lines parse ys"
  by (simp add: yield_lines_def map_filter_def)

lemma split_nl_no_newline: "newline \<notin> set s \<Longrightarrow> split_nl s = [s]"
  by (induction s) (auto simp: Let_def)

lemma last_split_nl_no_newline: "newline \<notin> set (last (split_nl s))"
proof (induction s)
  case Nil
  then show ?case by simp
next
  case (Cons c cs)
  show ?case
  proof (cases "c \<noteq> newline \<and> tl (split_nl cs) = []")
    case True
    then have "split_nl cs = [hd (split_nl cs)]"
      by (metis split_nl_hd_tl)
    then have "last (split_nl cs) = hd (split_nl cs)"
      by (metis last.simps)
    with True Cons.IH show ?thesis
      by (simp only: last_split_nl_Cons if_True) auto
  next
    case False
    with Cons.IH show ?thesis
      by (auto simp add: last_split_nl_Cons simp del: split_nl.simps)
  qed
qed

text \<open>What the loop computes from a loop state whose buffer holds no line feed (as every
  buffer the loop stores): the complete lines of the buffer followed by the decoded text
  of all chunks, with the unfinished last piece kept.\<close>

lemma read_loop_eq:
  "newline \<notin> set (buffer s) \<Longrightarrow>
   read_loop parse dec s vs =
     (case decode dec (decoder s) (concat vs) of (d, t) \<Rightarrow>
        (yield_lines parse (butlast (split_nl (buffer s @ t))),
         \<lparr>decoder = d, buffer = last (split_nl (buffer s @ t))\<rparr>))"
proof (induction vs arbitrary: s)
  case Nil
  then show ?case by (simp add: split_nl_no_newline yield_lines_def)
next
  case (Cons v vs)
  obtain d1 t1 where v: "decode dec (decoder s) v = (d1, t1)"
    by (cases "decode dec (decoder s) v")
  obtain d2 t2 where vs: "decode dec d1 (concat vs) = (d2, t2)"
    by (cases "decode dec d1 (concat vs)")
  let ?s1 = "\<lparr>decoder = d1, buffer = last (split_nl (buffer s @ t1))\<rparr>"
  have chunk: "read_chunk parse dec s v =
      (?s1, yield_lines parse (butlast (split_nl (buffer s @ t1))))"
    by (simp add: read_chunk_def v Let_def)
  have inv: "newline \<notin> set (buffer ?s1)"
    by (simp add: last_split_nl_no_newline)
  have rest: "read_loop parse dec ?s1 vs =
      (yield_lines parse (butlast (split_nl (last (split_nl (buffer s @ t1)) @ t2))),
       \<lparr>decoder = d2, buffer = last (split_nl (last (split_nl (buffer s @ t1)) @ t2))\<rparr>)"
    using Cons.IH [OF inv] by (simp add: vs)
  have whole: "decode dec (decoder s) (concat (v # vs)) = (d2, t1 @ t2)"
    by (simp add: decode_append v vs)
  have b: "butlast (split_nl (buffer s @ t1 @ t2)) =
      butlast (split_nl (buffer s @ t1)) @
      butlast (split_nl (last (split_nl (buffer s @ t1)) @ t2))"
    using butlast_split_nl_append [of "buffer s @ t1" t2] by simp
  have l: "last (split_nl (buffer s @ t1 @ t2)) =
      last (split_nl (last (split_nl (buffer s @ t1)) @ t2))"
    using last_split_nl_append [of "buffer s @ t1" t2] by simp
  show ?case
    by (simp only: read_loop.simps chunk rest whole prod.case b l yield_lines_append)
qed

text \<open>C1. Chunk independence: however the bytes of the body are cut into chunks
  (also in the middle of a record, or in the middle of a multi-byte character), the read
  loop of analyzeStream yields the same events, in the same order, as it yields when all
  the bytes arrive in one chunk.\<close>

theorem decoder_chunking_invariant:
  "decoder_events parse dec d0 vs = decoder_events parse dec d0 [concat vs]"
proof -
  have "newline \<notin> set (buffer \<lparr>decoder = d0, buffer = []\<rparr>)"
    by simp
  then show ?thesis
    unfolding decoder_events_def by (simp add: read_loop_eq del: read_loop.simps)
qed

lemma split_nl_line:
  "newline \<notin> set l \<Longrightarrow> split_nl (l @ newline # rest) = l # split_nl rest"
  by (induction l) (auto simp: Let_def)

lemma split_nl_frame:
  "\<forall>l\<in>set ls. newline \<notin> set l \<Longrightarrow> split_nl (frame ls) = ls @ [[]]"
proof (induction ls)
  case Nil
  then show ?case by (simp add: frame_def)
next
  case (Cons l ls)
  then have "split_nl (l @ newline # frame ls) = l # split_nl (frame ls)"
    by (simp add: split_nl_line del: split_nl.simps)
  with Cons show ?case by (simp add: frame_def del: split_nl.simps)
qed

lemma decoder_events_text:
  "decoder_events parse dec d0 vs =
     yield_lines parse (butlast (split_nl (decoded_text dec d0 vs)))"
proof -
  have "newline \<notin> set (buffer \<lparr>decoder = d0, buffer = []\<rparr>)"
    by simp
  then show ?thesis
    unfolding decoder_events_def decoded_text_def
    by (simp add: read_loop_eq split: prod.splits del: read_loop.simps)
qed

lemma decoder_events_frame:
  assumes "decoded_text dec d0 vs = frame ls" and "\<forall>l\<in>set ls. newline \<notin> set l"
  shows "decoder_events parse dec d0 vs = yield_lines parse ls"
  using assms by (simp add: decoder_events_text split_nl_frame)

lemma yield_lines_drop:
  "line_event parse bad = None \<Longrightarrow>
   yield_lines parse (xs @ bad # ys) = yield_lines parse (xs @ ys)"
  by (simp add: yield_lines_def map_filter_def)

lemma yield_lines_all_valid:
  "\<forall>l\<in>set ls. line_event parse l \<noteq> None \<Longrightarrow>
   yield_lines parse ls = map (\<lambda>l. the (line_event parse l)) ls"
  by (induction ls) (auto simp: yield_lines_def map_filter_def)

text \<open>C8. One malformed record among valid ones: when the body's text is a sequence of
  newline-terminated records, one of which carries the marker but a payload that
  \<open>JSON.parse\<close> rejects, the decoder yields the events of all the other records, in
  order, and ends without an exception, however the bytes were chunked.\<close>

theorem malformed_record_dropped:
  assumes "decoded_text dec d0 vs = frame (xs @ bad # ys)"
    and "\<forall>l\<in>set (xs @ bad # ys). newline \<notin> set l"
    and "prefix ''data: '' bad" and "parse (drop 6 bad) = None"
    and "\<forall>l\<in>set (xs @ ys). line_event parse l \<noteq> None"
  shows "analyzeStream parse dec d0 (Body vs None) =
           (map (\<lambda>l. the (line_event parse l)) (xs @ ys), None)"
proof -
  have bad: "line_event parse bad = None"
    using assms(3,4) by (simp add: line_event_def)
  have "decoder_events parse dec d0 vs = yield_lines parse (xs @ bad # ys)"
    using assms(1,2) by (rule decoder_events_frame)
  also have "\<dots> = yield_lines parse (xs @ ys)"
    using bad by (rule yield_lines_drop)
  also have "\<dots> = map (\<lambda>l. the (line_event parse l)) (xs @ ys)"
    using assms(5) by (rule yield_lines_all_valid)
  finally show ?thesis by simp
qed

theorem malformed_record_dropped_witness:
  "analyzeStream (\<lambda>s. if s = ''{}'' then None else Some s) (\<lambda>d b. (d, [b])) ()
     (Body [''data: 1'' @ [newline] @ ''da'', ''ta: {}'' @ [newline] @ ''data: 2'' @ [newline]] None)
   = ([''1'', ''2''], None)"
proof -
  let ?parse = "\<lambda>s. if s = ''{}'' then None else Some s"
  let ?dec = "\<lambda>(d::unit) (b::char). (d, [b])"
  let ?vs = "[''data: 1'' @ [newline] @ ''da'', ''ta: {}'' @ [newline] @ ''data: 2'' @ [newline]]"
  have 1: "decoded_text ?dec () ?vs = frame ([''data: 1''] @ ''data: {}'' # [''data: 2''])"
    by (simp add: decoded_text_def frame_def)
  have 2: "\<forall>l\<in>set ([''data: 1''] @ ''data: {}'' # [''data: 2'']). newline \<notin> set l"
    by (simp add: newline_def)
  have 3: "prefix ''data: '' ''data: {}''"
    by simp
  have 4: "?parse (drop 6 ''data: {}'') = None"
    by simp
  have 5: "\<forall>l\<in>set ([''data: 1''] @ [''data: 2'']). line_event ?parse l \<noteq> None"
    by (simp add: line_event_def)
  show ?thesis
    using malformed_record_dropped [of ?dec "()" ?vs "[''data: 1'']" "''data: {}''" "[''data: 2'']" ?parse, OF 1 2 3 4 5]
    by (simp add: line_event_def)
qed

section \<open>Properties of the history store\<close>






lemma json_roundtrip_newItem:
  "json_roundtrip (newItem item uuid now) = newItem (json_roundtrip item) uuid now"
  by (simp add: json_roundtrip_def newItem_def HistoryPayload.defs AnalysisHistoryItem.defs)





lemma json_roundtrip_example: "json_roundtrip example_payload = example_payload"
  by (simp add: json_roundtrip_def example_payload_def no_answers_def)

lemma json_roundtrip_old_item: "json_roundtrip old_item = old_item"
  by (simp add: old_item_def json_roundtrip_newItem json_roundtrip_example)



lemma saveToHistory_retry:
  "getHistory st = Array old \<Longrightarrow>
   q (take 50 (newItem item uuid now # old)) = Some x \<Longrightarrow>
   saveToHistory q uuid now st item =
     (case q (take 10 (newItem item uuid now # old)) of
        None \<Rightarrow> (Inr (newItem item uuid now),
                 Parsed (map json_roundtrip (take 10 (newItem item uuid now # old))))
      | Some y \<Rightarrow> (Inl y, st))"
  by (simp add: saveToHistory_def setItem_def MAX_HISTORY_ITEMS_def Let_def min_def
           split: option.splits)







lemma saveToHistory_returns:
  assumes "saveToHistory q uuid now st item = (Inr r, st1)"
  shows "r = newItem item uuid now \<and>
         (\<exists>old. getHistory st = Array old \<and>
            (st1 = Parsed (map json_roundtrip (newItem item uuid now # take 49 old)) \<or>
             st1 = Parsed (map json_roundtrip (newItem item uuid now # take 9 old))))"
proof (cases "getHistory st")
  case NotIterable
  with assms show ?thesis
    by (simp add: saveToHistory_def)
next
  case (Array old)
  with assms show ?thesis
    by (auto simp: saveToHistory_def setItem_def MAX_HISTORY_ITEMS_def Let_def
             split: option.splits)
qed

text \<open>After a call that returned, the store holds an array: the other case of
  \<open>history_length\<close> is never reached from the event loop.\<close>

lemma saveToHistory_returns_array:
  "saveToHistory q uuid now st item = (Inr r, st1) \<Longrightarrow> \<exists>xs. getHistory st1 = Array xs"
  using saveToHistory_returns [of q uuid now st item r st1] by auto





text \<open>C7, as stated, fails: on a store that rejects every write the retry is rejected as
  well, and saveToHistory throws to its caller with nothing stored.\<close>

theorem save_throws_when_retry_rejected:
  "saveToHistory full_storage ''id-new'' ''2026-01-01T00:00:00.000Z'' NoItem example_payload
     = (Inl (Error ''QuotaExceededError''), NoItem)"
  by (simp add: saveToHistory_def setItem_def full_storage_def)

text \<open>C7, amended. When the first write is rejected, saveToHistory retries once with the
  10 newest entries, the new one first. If the retry is accepted, the call returns the new
  entry and the store holds those entries. If the retry is rejected too, its exception
  reaches the caller and the store is as before the call.\<close>

theorem save_retries_once_with_ten:
  assumes "getHistory st = Array history"
    and "q (take 50 (newItem item uuid now # history)) = Some x"
  shows "saveToHistory q uuid now st item =
           (case q (take 10 (newItem item uuid now # history)) of
              None \<Rightarrow> (Inr (newItem item uuid now),
                       Parsed (map json_roundtrip (newItem item uuid now # take 9 history)))
            | Some y \<Rightarrow> (Inl y, st))"
  using saveToHistory_retry [of st history q item uuid now x, OF assms]
  by (simp split: option.splits)

theorem save_retries_once_with_ten_witness:
  "saveToHistory room_for_ten ''id-new'' ''2026-01-01T00:00:00.000Z''
       (Parsed (replicate 10 old_item)) example_payload
     = (Inr (newItem example_payload ''id-new'' ''2026-01-01T00:00:00.000Z''),
        Parsed (newItem example_payload ''id-new'' ''2026-01-01T00:00:00.000Z''
                # replicate 9 old_item))"
proof -
  let ?r = "newItem example_payload ''id-new'' ''2026-01-01T00:00:00.000Z''"
  have 0: "getHistory (Parsed (replicate 10 old_item)) = Array (replicate 10 old_item)"
    by simp
  have 1: "room_for_ten (take 50 (?r # replicate 10 old_item))
      = Some (Error ''QuotaExceededError'')"
    by (simp add: room_for_ten_def)
  show ?thesis
    using save_retries_once_with_ten
      [of "Parsed (replicate 10 old_item)" "replicate 10 old_item" room_for_ten
          example_payload "''id-new''" "''2026-01-01T00:00:00.000Z''"
          "Error ''QuotaExceededError''", OF 0 1]
    by (simp add: room_for_ten_def json_roundtrip_newItem json_roundtrip_example
          json_roundtrip_old_item)
qed

section \<open>Properties of the job controller\<close>

lemma event_loop_append:
  "event_loop ev file s (xs @ ys) =
     (case event_loop ev file s xs of
        (Some x, s1) \<Rightarrow> (Some x, s1)
      | (None, s1) \<Rightarrow> event_loop ev file s1 ys)"
  by (induction xs arbitrary: s) (auto split: prod.splits option.splits)

lemma handle_event_no_throw:
  "\<not> is_complete e \<Longrightarrow> fst (handle_event ev file s e) = None"
  by (cases e) simp_all

lemma handle_event_storage:
  "\<not> is_complete e \<Longrightarrow> storage (snd (handle_event ev file s e)) = storage s"
  by (cases e) simp_all

lemma event_loop_no_complete:
  "\<forall>e\<in>set evs. \<not> is_complete e \<Longrightarrow>
   fst (event_loop ev file s evs) = None \<and>
   storage (snd (event_loop ev file s evs)) = storage s"
proof (induction evs arbitrary: s)
  case Nil
  then show ?case by simp
next
  case (Cons e evs)
  then have e: "\<not> is_complete e" and rest: "\<forall>e\<in>set evs. \<not> is_complete e"
    by simp_all
  obtain s1 where s1: "handle_event ev file s e = (None, s1)"
    using handle_event_no_throw [OF e, of ev "file" s]
    by (cases "handle_event ev file s e") auto
  have "storage s1 = storage s"
    using handle_event_storage [OF e, of ev "file" s] by (simp add: s1)
  with Cons.IH [OF rest, of s1] show ?case
    by (simp add: s1)
qed

lemma handle_complete_progress:
  "progress (snd (handle_event ev file s (Ev_complete t m n p))) =
     Some \<lparr>answered = t, total' = t, AnalysisProgress.met = m, not_met = n,
           AnalysisProgress.partial = p\<rparr>"
  by (simp add: Let_def split: sum.splits)

lemma catch_block_progress: "progress (catch_block err s) = progress s"
  by (simp add: catch_block_def)

lemma catch_block_storage: "storage (catch_block err s) = storage s"
  by (simp add: catch_block_def)

lemma try_block_last:
  assumes "fst (event_loop ev file s evs) = None"
  shows "try_block ev file (evs @ [e], ending) s =
           (case handle_event ev file (snd (event_loop ev file s evs)) e of
              (Some x, s1) \<Rightarrow> catch_block x s1
            | (None, s1) \<Rightarrow> (case ending of None \<Rightarrow> s1 | Some x \<Rightarrow> catch_block x s1))"
proof -
  obtain s0 where s0: "event_loop ev file s evs = (None, s0)"
    using assms by (cases "event_loop ev file s evs") auto
  show ?thesis
    by (simp add: try_block_def event_loop_append s0 split: prod.splits option.splits)
qed

text \<open>C2. Terminal aggregation: after any events that are not \<open>complete\<close> events (answer
  events, whichever arrived, repeated or missing), followed by
  \<open>complete{total, met, not_met, partial}\<close>, the progress snapshot is
  \<open>{answered: total, total, met, not_met, partial}\<close>, whatever the earlier events left and
  however the stream or the history write ends.\<close>

theorem complete_sets_final_progress:
  assumes "\<forall>e\<in>set evs. \<not> is_complete e"
  shows "progress (try_block ev file (evs @ [Ev_complete t m n p], ending) s) =
           Some \<lparr>answered = t, total' = t, AnalysisProgress.met = m, not_met = n,
                 AnalysisProgress.partial = p\<rparr>"
proof -
  let ?s0 = "snd (event_loop ev file s evs)"
  have quiet: "fst (event_loop ev file s evs) = None"
    using event_loop_no_complete [OF assms] by simp
  obtain r s1 where h: "handle_event ev file ?s0 (Ev_complete t m n p) = (r, s1)"
    by (cases "handle_event ev file ?s0 (Ev_complete t m n p)")
  have "progress s1 =
      Some \<lparr>answered = t, total' = t, AnalysisProgress.met = m, not_met = n,
            AnalysisProgress.partial = p\<rparr>"
    using handle_complete_progress [of ev "file" ?s0 t m n p] by (simp only: h snd_conv)
  then show ?thesis
    by (simp add: try_block_last [OF quiet] h catch_block_progress
             del: handle_event.simps split: option.splits)
qed

theorem complete_sets_final_progress_witness:
  "progress (try_block example_env ''audit.pdf''
       ([Ev_answer 0 example_answer example_progress,
         Ev_answer 0 example_answer example_progress] @ [Ev_complete 2 1 1 0], None)
       idle_page) =
   Some \<lparr>answered = 2, total' = 2, AnalysisProgress.met = 1, not_met = 1,
         AnalysisProgress.partial = 0\<rparr>"
proof -
  have 1: "\<forall>e\<in>set [Ev_answer 0 example_answer example_progress,
                      Ev_answer 0 example_answer example_progress]. \<not> is_complete e"
    by simp
  show ?thesis
    using complete_sets_final_progress [OF 1] .
qed

text \<open>C10. A second answer event for an index that already has an answer is not ignored:
  after both events the stored answer for that index is the later event's answer, the other
  indices are as the first event left them, and the progress snapshot is the one the later
  event carries.\<close>

theorem duplicate_answer_latest_wins:
  "event_loop ev file s [Ev_answer i a1 p1, Ev_answer i a2 p2] =
     (None, s\<lparr>finalAnswers := (finalAnswers s)(i \<mapsto> a2),
              answers := (answers s)(i \<mapsto> a2),
              progress := Some p2,
              finalProgress := Some p2\<rparr>)"
  by simp

text \<open>C4, as stated, fails: after a questions event with one question, an answer event
  with index 5 is stored under index 5.\<close>

theorem out_of_range_answer_is_stored:
  "answers (snd (event_loop example_env ''audit.pdf'' (reset_for ''audit.pdf'' idle_page)
                  [Ev_questions [''Is MFA enforced?''] 1,
                   Ev_answer 5 example_answer example_progress])) 5
     = Some example_answer
   \<and> answers (snd (event_loop example_env ''audit.pdf'' (reset_for ''audit.pdf'' idle_page)
                  [Ev_questions [''Is MFA enforced?''] 1])) 5
     = None"
  by (simp add: reset_for_def)

text \<open>C4, amended. An answer event is never ignored, whatever its index: the loop does not
  compare the index with the number of questions. The answer is stored under the index of
  the event, in the state and in the set that goes to the history, and the progress is
  replaced; the question list is unchanged and nothing is thrown.\<close>

theorem answer_stored_at_any_index:
  "fst (handle_event ev file s (Ev_answer i a p)) = None
   \<and> answers (snd (handle_event ev file s (Ev_answer i a p))) = (answers s)(i \<mapsto> a)
   \<and> finalAnswers (snd (handle_event ev file s (Ev_answer i a p))) = (finalAnswers s)(i \<mapsto> a)
   \<and> progress (snd (handle_event ev file s (Ev_answer i a p))) = Some p
   \<and> questions (snd (handle_event ev file s (Ev_answer i a p))) = questions s
   \<and> finalQuestions (snd (handle_event ev file s (Ev_answer i a p))) = finalQuestions s"
  by simp

text \<open>C5, as stated, fails: a \<open>complete\<close> event is read and saved, then the next
  \<open>read\<close> rejects; the job ends in the error state and the history has a new entry.\<close>

theorem failed_job_after_complete_is_saved:
  "analysisState (handleFileSelect example_env example_parse ascii () ''audit.pdf''
       (Body [''data: complete'' @ [newline]] (Some (Error ''network error''))) idle_page)
     = St_error
   \<and> storage idle_page = NoItem
   \<and> getHistory (storage (handleFileSelect example_env example_parse ascii ()
       ''audit.pdf''
       (Body [''data: complete'' @ [newline]] (Some (Error ''network error''))) idle_page))
     = Array [newItem example_payload [] []]"
proof -
  have evs: "analyzeStream example_parse ascii ()
      (Body [''data: complete'' @ [newline]] (Some (Error ''network error'')))
      = ([Ev_complete 0 0 0 0], Some (Error ''network error''))"
    by (simp add: decoder_events_def read_chunk_def yield_lines_def line_event_def
          map_filter_def example_parse_def ascii_def newline_def Let_def)
  have pay: "\<lparr>filename = ''audit.pdf'', totalQuestions = Finite 0,
      HistoryPayload.met = Finite 0, notMet = Finite 0, HistoryPayload.partial = Finite 0,
      HistoryPayload.questions = [], HistoryPayload.answers = Map.empty\<rparr> = example_payload"
    by (simp add: example_payload_def no_answers_def)
  show ?thesis
    unfolding handleFileSelect_def evs
    by (simp add: try_block_def catch_block_def reset_for_def
          example_env_def accept_all_def replicate_char_def pay json_roundtrip_newItem
          json_roundtrip_example saveToHistory_def setItem_def MAX_HISTORY_ITEMS_def
          idle_page_def Let_def)
qed

text \<open>C5, amended. A job in which no \<open>complete\<close> event is processed leaves the store as
  it was. This covers every job that fails while the request is set up (no event at all)
  and every job whose stream carries an \<open>error\<close> event or ends with a rejected \<open>read\<close>
  before any \<open>complete\<close> event.\<close>

theorem job_without_complete_keeps_history:
  assumes "\<forall>e\<in>set (fst (analyzeStream parse dec d0 resp)). \<not> is_complete e"
  shows "storage (handleFileSelect ev parse dec d0 file resp s) = storage s"
proof -
  let ?s0 = "reset_for file s"
  let ?evs = "fst (analyzeStream parse dec d0 resp)"
  have start: "storage ?s0 = storage s"
    by (simp add: reset_for_def)
  obtain s1 where loop: "event_loop ev file ?s0 ?evs = (None, s1)"
    using event_loop_no_complete [OF assms, of ev "file" ?s0]
    by (cases "event_loop ev file ?s0 ?evs") auto
  have "storage s1 = storage ?s0"
    using event_loop_no_complete [OF assms, of ev "file" ?s0] by (simp add: loop)
  then show ?thesis
    by (simp add: handleFileSelect_def try_block_def loop catch_block_storage start
             split: option.splits)
qed

theorem job_without_complete_keeps_history_witness:
  "analysisState (handleFileSelect example_env example_parse ascii () ''audit.pdf''
       (Body [''data: error'' @ [newline]] None) idle_page) = St_error
   \<and> storage (handleFileSelect example_env example_parse ascii () ''audit.pdf''
       (Body [''data: error'' @ [newline]] None) idle_page) = storage idle_page"
proof -
  have evs: "fst (analyzeStream example_parse ascii () (Body [''data: error'' @ [newline]] None))
      = [Ev_error ''LLM quota exceeded'']"
    by (simp add: decoder_events_def read_chunk_def yield_lines_def line_event_def
          map_filter_def example_parse_def ascii_def newline_def Let_def)
  have 1: "\<forall>e\<in>set (fst (analyzeStream example_parse ascii ()
      (Body [''data: error'' @ [newline]] None))). \<not> is_complete e"
    by (simp only: evs) simp
  have st: "analysisState (handleFileSelect example_env example_parse ascii () ''audit.pdf''
       (Body [''data: error'' @ [newline]] None) idle_page) = St_error"
    using evs by (simp add: handleFileSelect_def try_block_def)
  show ?thesis
    using job_without_complete_keeps_history [OF 1] st by simp
qed

section \<open>Properties of the phase\<close>

lemma handle_event_ph_phase:
  "phase (snd (handle_event_ph ev file s e)) =
     (case signalled e of None \<Rightarrow> phase s | Some p \<Rightarrow> p)"
  by (cases e) (simp_all add: Let_def split: sum.splits)

lemma phases_seen_Cons:
  "\<exists>rest. phases_seen ev file s (e # es) = phase (snd (handle_event_ph ev file s e)) # rest
     \<and> (rest = [] \<or> rest = phases_seen ev file (snd (handle_event_ph ev file s e)) es)"
  by (cases "handle_event_ph ev file s e") (auto simp del: handle_event_ph.simps split: option.splits)

lemma phases_seen_sorted:
  "sorted (map phase_rank (phase s # List.map_filter signalled evs)) \<Longrightarrow>
   sorted (map phase_rank (phase s # phases_seen ev file s evs))"
proof (induction evs arbitrary: s)
  case Nil
  then show ?case by simp
next
  case (Cons e es)
  let ?s1 = "snd (handle_event_ph ev file s e)"
  obtain rest where shape: "phases_seen ev file s (e # es) = phase ?s1 # rest"
    and rest: "rest = [] \<or> rest = phases_seen ev file ?s1 es"
    using phases_seen_Cons [of ev "file" s e es] by blast
  have step: "phase ?s1 = (case signalled e of None \<Rightarrow> phase s | Some p \<Rightarrow> p)"
    by (rule handle_event_ph_phase)
  have up: "phase_rank (phase s) \<le> phase_rank (phase ?s1)"
    and tail: "sorted (map phase_rank (phase ?s1 # List.map_filter signalled es))"
    using Cons.prems by (auto simp: step map_filter_simps split: option.splits)
  have "sorted (map phase_rank (phase ?s1 # phases_seen ev file ?s1 es))"
    using Cons.IH [OF tail] .
  with rest have "sorted (map phase_rank (phase ?s1 # rest))"
    by auto
  with up show ?case
    by (simp only: shape list.map sorted2 simp_thms)
qed

text \<open>C3, as stated, fails: after the questions event has set the phase to \<open>keywords\<close>,
  a status message that contains \<open>Extracting questions\<close> sets it back to \<open>extracting\<close>,
  and the job is not in the error state.\<close>

theorem status_message_moves_phase_back:
  "phases_seen example_env ''audit.pdf'' (reset_for_ph ''audit.pdf'' idle_page_ph)
     [Ev_questions [''Is MFA enforced?''] 1, Ev_status ''Extracting questions from PDF'']
     = [Ph_keywords, Ph_extracting]
   \<and> phase_rank Ph_extracting < phase_rank Ph_keywords
   \<and> analysisState (snd (event_loop_ph example_env ''audit.pdf''
        (reset_for_ph ''audit.pdf'' idle_page_ph)
        [Ev_questions [''Is MFA enforced?''] 1, Ev_status ''Extracting questions from PDF'']))
     = St_analyzing"
  by (simp add: reset_for_ph_def Let_def)

text \<open>C3, amended. The loop does not clamp the phase: an event that signals a phase (a
  status message by the first keyword row it matches, in the order extracting, keywords,
  searching, analyzing; a questions event \<open>keywords\<close>; a complete event \<open>complete\<close>)
  sets the phase to it, and any other event leaves the phase as it is. So the phase is
  non-decreasing along every event sequence whose signalled phases, starting from the
  current phase, are in non-decreasing order.\<close>

theorem phase_monotone_for_ordered_signals:
  assumes "sorted (map phase_rank (phase s # List.map_filter signalled evs))"
  shows "phase (snd (handle_event_ph ev file s e)) =
           (case signalled e of None \<Rightarrow> phase s | Some p \<Rightarrow> p)
         \<and> sorted (map phase_rank (phase s # phases_seen ev file s evs))"
  using assms handle_event_ph_phase [of ev "file" s e] phases_seen_sorted [of s evs ev "file"]
  by simp

theorem phase_monotone_for_ordered_signals_witness:
  "phases_seen example_env ''audit.pdf'' (reset_for_ph ''audit.pdf'' idle_page_ph)
     [Ev_status ''Extracting questions from PDF'', Ev_questions [''Is MFA enforced?''] 1,
      Ev_status ''Searching policies'', Ev_answer 0 example_answer example_progress,
      Ev_status ''Analyzing compliance'', Ev_complete 1 1 0 0]
     = [Ph_extracting, Ph_keywords, Ph_searching, Ph_searching, Ph_analyzing, Ph_complete]
   \<and> sorted (map phase_rank (phase (reset_for_ph ''audit.pdf'' idle_page_ph) #
        phases_seen example_env ''audit.pdf'' (reset_for_ph ''audit.pdf'' idle_page_ph)
          [Ev_status ''Extracting questions from PDF'', Ev_questions [''Is MFA enforced?''] 1,
           Ev_status ''Searching policies'', Ev_answer 0 example_answer example_progress,
           Ev_status ''Analyzing compliance'', Ev_complete 1 1 0 0]))"
proof -
  let ?evs = "[Ev_status ''Extracting questions from PDF'', Ev_questions [''Is MFA enforced?''] 1,
      Ev_status ''Searching policies'', Ev_answer 0 example_answer example_progress,
      Ev_status ''Analyzing compliance'', Ev_complete 1 1 0 0]"
  let ?s = "reset_for_ph ''audit.pdf'' idle_page_ph"
  have 1: "sorted (map phase_rank (phase ?s # List.map_filter signalled ?evs))"
    by (simp add: reset_for_ph_def)
  have 2: "phases_seen example_env ''audit.pdf'' ?s ?evs
      = [Ph_extracting, Ph_keywords, Ph_searching, Ph_searching, Ph_analyzing, Ph_complete]"
    by (simp add: reset_for_ph_def Let_def example_env_def accept_all_def
          saveToHistory_def setItem_def split: sum.splits)
  note 3 = phase_monotone_for_ordered_signals
    [OF 1, of example_env "''audit.pdf''" "Ev_error []", THEN conjunct2]
  show ?thesis
    using 2 3 by (rule conjI)
qed

end
